theory Spec2Isabelle
  imports Main "HOL-Library.Multiset"
begin

section \<open>Configuration symbols of \<^verbatim>\<open>config_adjust_legacy_crypto.h\<close>\<close>

text \<open>
  The header \<^verbatim>\<open>include/mbedtls/config_adjust_legacy_crypto.h\<close> is a straight-line
  sequence of preprocessor conditionals. Each one tests which configuration macros
  are defined and defines further macros. The macros it reads or defines are the
  flag vocabulary; they keep the names they have in the header.
\<close>

datatype flag =
    MBEDTLS_MD_C
  | MBEDTLS_MD_LIGHT
  | MBEDTLS_ECJPAKE_C
  | MBEDTLS_PEM_PARSE_C
  | MBEDTLS_ENTROPY_C
  | MBEDTLS_PK_C
  | MBEDTLS_PKCS12_C
  | MBEDTLS_RSA_C
  | MBEDTLS_SSL_TLS_C
  | MBEDTLS_X509_USE_C
  | MBEDTLS_X509_CREATE_C
  | MBEDTLS_ECP_C
  | MBEDTLS_PK_PARSE_EC_EXTENDED
  | MBEDTLS_PK_PARSE_EC_COMPRESSED
  | MBEDTLS_PSA_BUILTIN_KEY_TYPE_ECC_KEY_PAIR_DERIVE
  | MBEDTLS_ECP_LIGHT
  | MBEDTLS_PK_PARSE_C
  | MBEDTLS_USE_PSA_CRYPTO
  | PSA_WANT_ALG_ECDH
  | MBEDTLS_ECDH_C
  | MBEDTLS_CAN_ECDH
  | MBEDTLS_ECDSA_C
  | MBEDTLS_PK_CAN_ECDSA_SIGN
  | MBEDTLS_PK_CAN_ECDSA_VERIFY
  | PSA_WANT_ALG_ECDSA
  | PSA_WANT_KEY_TYPE_ECC_KEY_PAIR_BASIC
  | PSA_WANT_KEY_TYPE_ECC_PUBLIC_KEY
  | MBEDTLS_PK_CAN_ECDSA_SOME
  | MBEDTLS_PSA_CRYPTO_C
  | MBEDTLS_PSA_CRYPTO_CLIENT
  | MBEDTLS_PK_WRITE_C
  | MBEDTLS_PK_HAVE_ECC_KEYS

definition all_flags :: "flag list" where
  "all_flags =
    [MBEDTLS_MD_C, MBEDTLS_MD_LIGHT, MBEDTLS_ECJPAKE_C, MBEDTLS_PEM_PARSE_C,
     MBEDTLS_ENTROPY_C, MBEDTLS_PK_C, MBEDTLS_PKCS12_C, MBEDTLS_RSA_C,
     MBEDTLS_SSL_TLS_C, MBEDTLS_X509_USE_C, MBEDTLS_X509_CREATE_C, MBEDTLS_ECP_C,
     MBEDTLS_PK_PARSE_EC_EXTENDED, MBEDTLS_PK_PARSE_EC_COMPRESSED,
     MBEDTLS_PSA_BUILTIN_KEY_TYPE_ECC_KEY_PAIR_DERIVE, MBEDTLS_ECP_LIGHT,
     MBEDTLS_PK_PARSE_C, MBEDTLS_USE_PSA_CRYPTO, PSA_WANT_ALG_ECDH, MBEDTLS_ECDH_C,
     MBEDTLS_CAN_ECDH, MBEDTLS_ECDSA_C, MBEDTLS_PK_CAN_ECDSA_SIGN,
     MBEDTLS_PK_CAN_ECDSA_VERIFY, PSA_WANT_ALG_ECDSA,
     PSA_WANT_KEY_TYPE_ECC_KEY_PAIR_BASIC, PSA_WANT_KEY_TYPE_ECC_PUBLIC_KEY,
     MBEDTLS_PK_CAN_ECDSA_SOME, MBEDTLS_PSA_CRYPTO_C, MBEDTLS_PSA_CRYPTO_CLIENT,
     MBEDTLS_PK_WRITE_C, MBEDTLS_PK_HAVE_ECC_KEYS]"

text \<open>The spelling of each flag as a preprocessor identifier.\<close>

primrec macro_name :: "flag \<Rightarrow> string" where
  "macro_name MBEDTLS_MD_C = ''MBEDTLS_MD_C''"
| "macro_name MBEDTLS_MD_LIGHT = ''MBEDTLS_MD_LIGHT''"
| "macro_name MBEDTLS_ECJPAKE_C = ''MBEDTLS_ECJPAKE_C''"
| "macro_name MBEDTLS_PEM_PARSE_C = ''MBEDTLS_PEM_PARSE_C''"
| "macro_name MBEDTLS_ENTROPY_C = ''MBEDTLS_ENTROPY_C''"
| "macro_name MBEDTLS_PK_C = ''MBEDTLS_PK_C''"
| "macro_name MBEDTLS_PKCS12_C = ''MBEDTLS_PKCS12_C''"
| "macro_name MBEDTLS_RSA_C = ''MBEDTLS_RSA_C''"
| "macro_name MBEDTLS_SSL_TLS_C = ''MBEDTLS_SSL_TLS_C''"
| "macro_name MBEDTLS_X509_USE_C = ''MBEDTLS_X509_USE_C''"
| "macro_name MBEDTLS_X509_CREATE_C = ''MBEDTLS_X509_CREATE_C''"
| "macro_name MBEDTLS_ECP_C = ''MBEDTLS_ECP_C''"
| "macro_name MBEDTLS_PK_PARSE_EC_EXTENDED = ''MBEDTLS_PK_PARSE_EC_EXTENDED''"
| "macro_name MBEDTLS_PK_PARSE_EC_COMPRESSED = ''MBEDTLS_PK_PARSE_EC_COMPRESSED''"
| "macro_name MBEDTLS_PSA_BUILTIN_KEY_TYPE_ECC_KEY_PAIR_DERIVE = ''MBEDTLS_PSA_BUILTIN_KEY_TYPE_ECC_KEY_PAIR_DERIVE''"
| "macro_name MBEDTLS_ECP_LIGHT = ''MBEDTLS_ECP_LIGHT''"
| "macro_name MBEDTLS_PK_PARSE_C = ''MBEDTLS_PK_PARSE_C''"
| "macro_name MBEDTLS_USE_PSA_CRYPTO = ''MBEDTLS_USE_PSA_CRYPTO''"
| "macro_name PSA_WANT_ALG_ECDH = ''PSA_WANT_ALG_ECDH''"
| "macro_name MBEDTLS_ECDH_C = ''MBEDTLS_ECDH_C''"
| "macro_name MBEDTLS_CAN_ECDH = ''MBEDTLS_CAN_ECDH''"
| "macro_name MBEDTLS_ECDSA_C = ''MBEDTLS_ECDSA_C''"
| "macro_name MBEDTLS_PK_CAN_ECDSA_SIGN = ''MBEDTLS_PK_CAN_ECDSA_SIGN''"
| "macro_name MBEDTLS_PK_CAN_ECDSA_VERIFY = ''MBEDTLS_PK_CAN_ECDSA_VERIFY''"
| "macro_name PSA_WANT_ALG_ECDSA = ''PSA_WANT_ALG_ECDSA''"
| "macro_name PSA_WANT_KEY_TYPE_ECC_KEY_PAIR_BASIC = ''PSA_WANT_KEY_TYPE_ECC_KEY_PAIR_BASIC''"
| "macro_name PSA_WANT_KEY_TYPE_ECC_PUBLIC_KEY = ''PSA_WANT_KEY_TYPE_ECC_PUBLIC_KEY''"
| "macro_name MBEDTLS_PK_CAN_ECDSA_SOME = ''MBEDTLS_PK_CAN_ECDSA_SOME''"
| "macro_name MBEDTLS_PSA_CRYPTO_C = ''MBEDTLS_PSA_CRYPTO_C''"
| "macro_name MBEDTLS_PSA_CRYPTO_CLIENT = ''MBEDTLS_PSA_CRYPTO_CLIENT''"
| "macro_name MBEDTLS_PK_WRITE_C = ''MBEDTLS_PK_WRITE_C''"
| "macro_name MBEDTLS_PK_HAVE_ECC_KEYS = ''MBEDTLS_PK_HAVE_ECC_KEYS''"

section \<open>Preprocessor conditionals\<close>

text \<open>
  The controlling expression of an \<^verbatim>\<open>#if\<close> is built from \<^verbatim>\<open>defined(X)\<close>,
  \<^verbatim>\<open>!\<close>, \<^verbatim>\<open>&&\<close> and \<^verbatim>\<open>||\<close>. A directive is a \<^verbatim>\<open>#define\<close> or an
  \<^verbatim>\<open>#if ... #else ... #endif\<close> group. Both are parametric in the type of macro
  names, so that the same interpreter runs over the flag vocabulary and over raw
  macro names.
\<close>

datatype 'n cond =
    Defined 'n
  | CNot "'n cond"
  | CAnd "'n cond" "'n cond"
  | COr "'n cond" "'n cond"

datatype 'n directive =
    Define 'n
  | IfBlock "'n cond" "'n directive list" "'n directive list"

primrec holds :: "'n cond \<Rightarrow> 'n set \<Rightarrow> bool" where
  "holds (Defined x) S = (x \<in> S)"
| "holds (CNot c) S = (\<not> holds c S)"
| "holds (CAnd a b) S = (holds a S \<and> holds b S)"
| "holds (COr a b) S = (holds a S \<or> holds b S)"

text \<open>
  The preprocessor reads the directives once, top to bottom; a \<^verbatim>\<open>#define\<close> is
  visible to every later \<^verbatim>\<open>#if\<close> and to none before it.
\<close>

fun exec :: "'n directive \<Rightarrow> 'n set \<Rightarrow> 'n set"
  and execs :: "'n directive list \<Rightarrow> 'n set \<Rightarrow> 'n set" where
  "exec (Define x) S = insert x S"
| "exec (IfBlock c ts es) S = (if holds c S then execs ts S else execs es S)"
| "execs [] S = S"
| "execs (d # ds) S = execs ds (exec d S)"

section \<open>The header, block by block\<close>

text \<open>Lines 40--42.\<close>

definition md_light_from_md_c :: "flag directive" where
  "md_light_from_md_c = IfBlock (Defined MBEDTLS_MD_C) [Define MBEDTLS_MD_LIGHT] []"

text \<open>Lines 47--57.\<close>

definition md_light_compat :: "flag directive" where
  "md_light_compat =
    IfBlock
      (COr (Defined MBEDTLS_ECJPAKE_C)
      (COr (Defined MBEDTLS_PEM_PARSE_C)
      (COr (Defined MBEDTLS_ENTROPY_C)
      (COr (Defined MBEDTLS_PK_C)
      (COr (Defined MBEDTLS_PKCS12_C)
      (COr (Defined MBEDTLS_RSA_C)
      (COr (Defined MBEDTLS_SSL_TLS_C)
      (COr (Defined MBEDTLS_X509_USE_C)
           (Defined MBEDTLS_X509_CREATE_C)))))))))
      [Define MBEDTLS_MD_LIGHT] []"

text \<open>Lines 75--80.\<close>

definition ecp_light :: "flag directive" where
  "ecp_light =
    IfBlock
      (COr (Defined MBEDTLS_ECP_C)
      (COr (Defined MBEDTLS_PK_PARSE_EC_EXTENDED)
      (COr (Defined MBEDTLS_PK_PARSE_EC_COMPRESSED)
           (Defined MBEDTLS_PSA_BUILTIN_KEY_TYPE_ECC_KEY_PAIR_DERIVE))))
      [Define MBEDTLS_ECP_LIGHT] []"

text \<open>Lines 87--89.\<close>

definition pk_parse_ec_compressed :: "flag directive" where
  "pk_parse_ec_compressed =
    IfBlock (CAnd (Defined MBEDTLS_PK_PARSE_C) (Defined MBEDTLS_ECP_C))
      [Define MBEDTLS_PK_PARSE_EC_COMPRESSED] []"

text \<open>Lines 93--96.\<close>

definition can_ecdh :: "flag directive" where
  "can_ecdh =
    IfBlock
      (COr (CAnd (Defined MBEDTLS_USE_PSA_CRYPTO) (Defined PSA_WANT_ALG_ECDH))
           (CAnd (CNot (Defined MBEDTLS_USE_PSA_CRYPTO)) (Defined MBEDTLS_ECDH_C)))
      [Define MBEDTLS_CAN_ECDH] []"

text \<open>Lines 102--116: an \<^verbatim>\<open>#if\<close> with an \<^verbatim>\<open>#else\<close> branch and nested groups.\<close>

definition pk_can_ecdsa :: "flag directive" where
  "pk_can_ecdsa =
    IfBlock (CNot (Defined MBEDTLS_USE_PSA_CRYPTO))
      [IfBlock (Defined MBEDTLS_ECDSA_C)
         [Define MBEDTLS_PK_CAN_ECDSA_SIGN, Define MBEDTLS_PK_CAN_ECDSA_VERIFY] []]
      [IfBlock (Defined PSA_WANT_ALG_ECDSA)
         [IfBlock (Defined PSA_WANT_KEY_TYPE_ECC_KEY_PAIR_BASIC)
            [Define MBEDTLS_PK_CAN_ECDSA_SIGN] [],
          IfBlock (Defined PSA_WANT_KEY_TYPE_ECC_PUBLIC_KEY)
            [Define MBEDTLS_PK_CAN_ECDSA_VERIFY] []]
         []]"

text \<open>Lines 118--120.\<close>

definition pk_can_ecdsa_some :: "flag directive" where
  "pk_can_ecdsa_some =
    IfBlock (COr (Defined MBEDTLS_PK_CAN_ECDSA_VERIFY) (Defined MBEDTLS_PK_CAN_ECDSA_SIGN))
      [Define MBEDTLS_PK_CAN_ECDSA_SOME] []"

text \<open>Lines 125--127.\<close>

definition psa_crypto_client :: "flag directive" where
  "psa_crypto_client =
    IfBlock (Defined MBEDTLS_PSA_CRYPTO_C) [Define MBEDTLS_PSA_CRYPTO_CLIENT] []"

text \<open>Lines 132--136.\<close>

definition pk_for_psa_rsa :: "flag directive" where
  "pk_for_psa_rsa =
    IfBlock (CAnd (Defined MBEDTLS_PSA_CRYPTO_C) (Defined MBEDTLS_RSA_C))
      [Define MBEDTLS_PK_C, Define MBEDTLS_PK_WRITE_C, Define MBEDTLS_PK_PARSE_C] []"

text \<open>Lines 141--144.\<close>

definition pk_have_ecc_keys :: "flag directive" where
  "pk_have_ecc_keys =
    IfBlock
      (COr (Defined MBEDTLS_ECP_C)
           (CAnd (Defined MBEDTLS_USE_PSA_CRYPTO) (Defined PSA_WANT_KEY_TYPE_ECC_PUBLIC_KEY)))
      [Define MBEDTLS_PK_HAVE_ECC_KEYS] []"

text \<open>The body of the header, lines 40--144, in textual order.\<close>

definition adjust_blocks :: "flag directive list" where
  "adjust_blocks =
    [md_light_from_md_c, md_light_compat, ecp_light, pk_parse_ec_compressed, can_ecdh,
     pk_can_ecdsa, pk_can_ecdsa_some, psa_crypto_client, pk_for_psa_rsa, pk_have_ecc_keys]"

text \<open>
  Resolution of a base set of explicitly defined flags: one pass of the preprocessor
  over the body of the header.
\<close>

definition resolve :: "flag set \<Rightarrow> flag set" where
  "resolve B = execs adjust_blocks B"

section \<open>The whole file, over macro names\<close>

text \<open>
  To the preprocessor a macro is an identifier, and a configuration may define
  identifiers the header never mentions. Over identifiers the file is its body,
  with every flag spelled out, inside the include guard of lines 34--35 and 146.
  The file contains no \<^verbatim>\<open>#error\<close> directive: processing it always ends with a set of
  defined macros.
\<close>

definition include_guard :: string where
  "include_guard = ''MBEDTLS_CONFIG_ADJUST_LEGACY_CRYPTO_H''"

definition header_file :: "string directive list" where
  "header_file =
    [IfBlock (CNot (Defined include_guard))
       (Define include_guard # map (map_directive macro_name) adjust_blocks) []]"

definition include_header :: "string set \<Rightarrow> string set" where
  "include_header N = execs header_file N"

section \<open>Rules: which macro a directive can define, and under which conditions\<close>

text \<open>The macros that some \<^verbatim>\<open>#define\<close> inside a directive can introduce.\<close>

fun defined_by :: "'n directive \<Rightarrow> 'n set"
  and defined_by_list :: "'n directive list \<Rightarrow> 'n set" where
  "defined_by (Define x) = {x}"
| "defined_by (IfBlock c ts es) = defined_by_list ts \<union> defined_by_list es"
| "defined_by_list [] = {}"
| "defined_by_list (d # ds) = defined_by d \<union> defined_by_list ds"

text \<open>
  An implication rule is a \<^verbatim>\<open>#define\<close> together with the conditions of the
  \<^verbatim>\<open>#if\<close> groups that enclose it (negated for an \<^verbatim>\<open>#else\<close> branch), outermost
  first. The rule table lists the rules of the header in textual order.
\<close>

type_synonym 'n rule = "'n cond list \<times> 'n"

fun rules_of :: "'n cond list \<Rightarrow> 'n directive \<Rightarrow> 'n rule list"
  and rules_of_list :: "'n cond list \<Rightarrow> 'n directive list \<Rightarrow> 'n rule list" where
  "rules_of g (Define x) = [(g, x)]"
| "rules_of g (IfBlock c ts es) =
     rules_of_list (g @ [c]) ts @ rules_of_list (g @ [CNot c]) es"
| "rules_of_list g [] = []"
| "rules_of_list g (d # ds) = rules_of g d @ rules_of_list g ds"

definition rule_table :: "flag rule list" where
  "rule_table = rules_of_list [] adjust_blocks"

definition rule_enabled :: "'n rule \<Rightarrow> 'n set \<Rightarrow> bool" where
  "rule_enabled r S = list_all (\<lambda>c. holds c S) (fst r)"

section \<open>The fixed-point resolver as the specification words it\<close>

text \<open>
  The specification describes resolution as an iteration: in one pass, every rule of
  the table is evaluated against the current flag set, and a rule whose predicate
  is true and whose consequent is inactive activates the consequent; passes are
  repeated until one makes no progress. \<open>apply_rule\<close> and \<open>rule_pass\<close> follow that
  wording; the loop itself is \<open>closure_loop\<close> below.
\<close>

definition apply_rule :: "'n rule \<Rightarrow> 'n set \<Rightarrow> 'n set" where
  "apply_rule r S = (if rule_enabled r S \<and> snd r \<notin> S then insert (snd r) S else S)"

definition rule_pass :: "flag set \<Rightarrow> flag set" where
  "rule_pass S = fold apply_rule rule_table S"

section \<open>An invariant of every evaluation order\<close>

text \<open>
  What holds of the macro set \<open>S\<close> at any point while the blocks of the header are
  evaluated from the base set \<open>B\<close>, in whatever order: nothing of the base set is
  lost, every flag of \<open>S\<close> other than \<^verbatim>\<open>MBEDTLS_PK_PARSE_EC_COMPRESSED\<close> and
  \<^verbatim>\<open>MBEDTLS_PK_CAN_ECDSA_SOME\<close> is one the textual pass reaches too, and
  \<^verbatim>\<open>MBEDTLS_PK_PARSE_EC_COMPRESSED\<close> is there only with \<^verbatim>\<open>MBEDTLS_ECP_C\<close> or from the
  base set.
\<close>

definition pass_inv :: "flag set \<Rightarrow> flag set \<Rightarrow> bool" where
  "pass_inv B S \<longleftrightarrow>
     B \<subseteq> S
     \<and> S - {MBEDTLS_PK_PARSE_EC_COMPRESSED, MBEDTLS_PK_CAN_ECDSA_SOME} \<subseteq> resolve B
     \<and> (MBEDTLS_PK_PARSE_EC_COMPRESSED \<in> S \<longrightarrow>
          MBEDTLS_PK_PARSE_EC_COMPRESSED \<in> B \<or> MBEDTLS_ECP_C \<in> B)"

section \<open>Basic facts about one pass\<close>

lemmas block_defs =
  md_light_from_md_c_def md_light_compat_def ecp_light_def pk_parse_ec_compressed_def
  can_ecdh_def pk_can_ecdsa_def pk_can_ecdsa_some_def psa_crypto_client_def
  pk_for_psa_rsa_def pk_have_ecc_keys_def

text \<open>A pass only ever adds macros, and only macros that some directive defines.\<close>

lemma exec_incr: "S \<subseteq> exec d S"
  and execs_incr: "S \<subseteq> execs ds S"
  by (induction d S and ds S rule: exec_execs.induct) auto

lemma exec_frame: "exec d S \<subseteq> S \<union> defined_by d"
  and execs_frame: "execs ds S \<subseteq> S \<union> defined_by_list ds"
  by (induction d S and ds S rule: exec_execs.induct) auto

lemma execs_append: "execs (xs @ ys) S = execs ys (execs xs S)"
  by (induction xs arbitrary: S) simp_all

lemma in_exec_other: "f \<notin> defined_by d \<Longrightarrow> f \<in> exec d S \<longleftrightarrow> f \<in> S"
  using exec_incr[of S d] exec_frame[of d S] by auto

lemma in_execs_other: "f \<notin> defined_by_list ds \<Longrightarrow> f \<in> execs ds S \<longleftrightarrow> f \<in> S"
  using execs_incr[of S ds] execs_frame[of ds S] by auto

lemma in_exec_If:
  "f \<in> defined_by (IfBlock c ts es) \<Longrightarrow>
   f \<in> exec (IfBlock c ts es) S \<longleftrightarrow>
     (holds c S \<and> f \<in> execs ts S) \<or> (\<not> holds c S \<and> f \<in> execs es S)"
  by simp

lemma in_exec_Define: "f \<in> exec (Define x) S \<longleftrightarrow> f = x \<or> f \<in> S"
  by simp

lemma in_execs_Nil: "f \<in> execs [] S \<longleftrightarrow> f \<in> S"
  by simp

lemma in_execs_Cons: "f \<in> execs (d # ds) S \<longleftrightarrow> f \<in> execs ds (exec d S)"
  by simp

lemmas mem_simps = in_exec_other in_exec_If in_exec_Define in_execs_Nil in_execs_Cons

lemma resolve_incr: "B \<subseteq> resolve B"
  unfolding resolve_def by (rule execs_incr)

text \<open>
  The outcome of the textual pass, flag by flag, in terms of the base set alone.
\<close>

lemma resolve_iff:
  "f \<in> resolve B \<longleftrightarrow>
     f \<in> B
   \<or> f = MBEDTLS_MD_LIGHT \<and>
       (MBEDTLS_MD_C \<in> B \<or> MBEDTLS_ECJPAKE_C \<in> B \<or> MBEDTLS_PEM_PARSE_C \<in> B \<or>
        MBEDTLS_ENTROPY_C \<in> B \<or> MBEDTLS_PK_C \<in> B \<or> MBEDTLS_PKCS12_C \<in> B \<or>
        MBEDTLS_RSA_C \<in> B \<or> MBEDTLS_SSL_TLS_C \<in> B \<or> MBEDTLS_X509_USE_C \<in> B \<or>
        MBEDTLS_X509_CREATE_C \<in> B)
   \<or> f = MBEDTLS_ECP_LIGHT \<and>
       (MBEDTLS_ECP_C \<in> B \<or> MBEDTLS_PK_PARSE_EC_EXTENDED \<in> B \<or>
        MBEDTLS_PK_PARSE_EC_COMPRESSED \<in> B \<or>
        MBEDTLS_PSA_BUILTIN_KEY_TYPE_ECC_KEY_PAIR_DERIVE \<in> B)
   \<or> f = MBEDTLS_PK_PARSE_EC_COMPRESSED \<and> MBEDTLS_PK_PARSE_C \<in> B \<and> MBEDTLS_ECP_C \<in> B
   \<or> f = MBEDTLS_CAN_ECDH \<and>
       (if MBEDTLS_USE_PSA_CRYPTO \<in> B then PSA_WANT_ALG_ECDH \<in> B else MBEDTLS_ECDH_C \<in> B)
   \<or> f = MBEDTLS_PK_CAN_ECDSA_SIGN \<and>
       (if MBEDTLS_USE_PSA_CRYPTO \<in> B
        then PSA_WANT_ALG_ECDSA \<in> B \<and> PSA_WANT_KEY_TYPE_ECC_KEY_PAIR_BASIC \<in> B
        else MBEDTLS_ECDSA_C \<in> B)
   \<or> f = MBEDTLS_PK_CAN_ECDSA_VERIFY \<and>
       (if MBEDTLS_USE_PSA_CRYPTO \<in> B
        then PSA_WANT_ALG_ECDSA \<in> B \<and> PSA_WANT_KEY_TYPE_ECC_PUBLIC_KEY \<in> B
        else MBEDTLS_ECDSA_C \<in> B)
   \<or> f = MBEDTLS_PK_CAN_ECDSA_SOME \<and>
       (MBEDTLS_PK_CAN_ECDSA_SIGN \<in> B \<or> MBEDTLS_PK_CAN_ECDSA_VERIFY \<in> B \<or>
        (if MBEDTLS_USE_PSA_CRYPTO \<in> B
         then PSA_WANT_ALG_ECDSA \<in> B \<and>
              (PSA_WANT_KEY_TYPE_ECC_KEY_PAIR_BASIC \<in> B \<or>
               PSA_WANT_KEY_TYPE_ECC_PUBLIC_KEY \<in> B)
         else MBEDTLS_ECDSA_C \<in> B))
   \<or> f = MBEDTLS_PSA_CRYPTO_CLIENT \<and> MBEDTLS_PSA_CRYPTO_C \<in> B
   \<or> (f = MBEDTLS_PK_C \<or> f = MBEDTLS_PK_WRITE_C \<or> f = MBEDTLS_PK_PARSE_C) \<and>
       MBEDTLS_PSA_CRYPTO_C \<in> B \<and> MBEDTLS_RSA_C \<in> B
   \<or> f = MBEDTLS_PK_HAVE_ECC_KEYS \<and>
       (MBEDTLS_ECP_C \<in> B \<or>
        MBEDTLS_USE_PSA_CRYPTO \<in> B \<and> PSA_WANT_KEY_TYPE_ECC_PUBLIC_KEY \<in> B)"
  unfolding resolve_def adjust_blocks_def block_defs
  by (cases f; simp add: mem_simps del: exec.simps execs.simps; blast)


lemmas rule_table_simp = rule_table_def[unfolded adjust_blocks_def block_defs, simplified]

lemma in_apply_rule_other: "f \<noteq> x \<Longrightarrow> f \<in> apply_rule (g, x) S \<longleftrightarrow> f \<in> S"
  by (auto simp: apply_rule_def)

lemma in_apply_rule_same:
  "f \<in> apply_rule (g, f) S \<longleftrightarrow> f \<in> S \<or> list_all (\<lambda>c. holds c S) g"
  by (auto simp: apply_rule_def rule_enabled_def)

text \<open>
  A pass over the rule table, as the specification words it, computes the same set
  as the preprocessor's pass over the header.
\<close>

lemma rule_pass_eq_resolve: "rule_pass S = resolve S"
proof (rule set_eqI)
  fix f
  show "f \<in> rule_pass S \<longleftrightarrow> f \<in> resolve S"
    unfolding rule_pass_def rule_table_simp resolve_iff
    by (cases f; simp add: in_apply_rule_other in_apply_rule_same; blast)
qed

lemma rule_pass_incr: "S \<subseteq> rule_pass S"
  unfolding rule_pass_eq_resolve by (rule resolve_incr)

subsection \<open>The flag vocabulary is finite\<close>

lemma UNIV_flag: "(UNIV :: flag set) = set all_flags"
proof -
  have "f \<in> set all_flags" for f
    by (cases f) (simp_all add: all_flags_def)
  then show ?thesis by auto
qed

lemma finite_flags: "finite (A :: flag set)"
proof -
  have "finite (UNIV :: flag set)" unfolding UNIV_flag by (rule finite_set)
  then show ?thesis by (rule rev_finite_subset) simp
qed

lemma card_flags: "card (UNIV :: flag set) = 32"
proof -
  have "distinct all_flags" by (simp add: all_flags_def)
  then have "card (set all_flags) = length all_flags" by (rule distinct_card)
  then show ?thesis by (simp add: UNIV_flag all_flags_def)
qed

section \<open>The fixed-point loop\<close>

text \<open>
  ``Repeat a full pass; stop when a pass makes no progress.'' The first component
  counts the passes that made progress. The loop is total: a pass that makes
  progress strictly enlarges the flag set, and the vocabulary is finite.
\<close>

function closure_loop :: "nat \<Rightarrow> flag set \<Rightarrow> nat \<times> flag set" where
  "closure_loop n S =
     (if rule_pass S = S then (n, S) else closure_loop (Suc n) (rule_pass S))"
  by pat_completeness auto
termination
proof (relation "measure (\<lambda>(n, S). card (UNIV - S))")
  show "wf (measure (\<lambda>(n, S :: flag set). card (UNIV - S)))" by simp
next
  fix n :: nat and S :: "flag set"
  assume "rule_pass S \<noteq> S"
  with rule_pass_incr[of S] have "S \<subset> rule_pass S" by auto
  then have "UNIV - rule_pass S \<subset> UNIV - S" by auto
  then have "card (UNIV - rule_pass S) < card (UNIV - S)"
    by (intro psubset_card_mono finite_flags)
  then show "((Suc n, rule_pass S), (n, S)) \<in> measure (\<lambda>(n, S). card (UNIV - S))"
    by simp
qed

declare closure_loop.simps [simp del]

definition spec_resolve :: "flag set \<Rightarrow> flag set" where
  "spec_resolve B = snd (closure_loop 0 B)"

definition passes_needed :: "flag set \<Rightarrow> nat" where
  "passes_needed B = fst (closure_loop 0 B)"

lemma closure_loop_stop: "rule_pass S = S \<Longrightarrow> closure_loop n S = (n, S)"
  by (subst closure_loop.simps) simp

lemma closure_loop_step:
  "rule_pass S \<noteq> S \<Longrightarrow> closure_loop n S = closure_loop (Suc n) (rule_pass S)"
  by (subst closure_loop.simps) simp

lemma closure_loop_bound: "fst (closure_loop n S) + card S \<le> n + card (UNIV :: flag set)"
proof (induction n S rule: closure_loop.induct)
  case (1 n S)
  show ?case
  proof (cases "rule_pass S = S")
    case True
    then show ?thesis by (simp add: closure_loop_stop card_mono finite_flags)
  next
    case False
    from False rule_pass_incr[of S] have "S \<subset> rule_pass S" by auto
    then have "card S < card (rule_pass S)" by (intro psubset_card_mono finite_flags)
    with 1[OF False] show ?thesis unfolding closure_loop_step[OF False] by simp
  qed
qed

lemma closure_loop_fixed: "rule_pass (snd (closure_loop n S)) = snd (closure_loop n S)"
proof (induction n S rule: closure_loop.induct)
  case (1 n S)
  show ?case
  proof (cases "rule_pass S = S")
    case True
    then show ?thesis by (simp add: closure_loop_stop)
  next
    case False
    from 1[OF False] show ?thesis unfolding closure_loop_step[OF False] .
  qed
qed

lemma closure_loop_funpow: "\<exists>k. closure_loop n S = (n + k, (rule_pass ^^ k) S)"
proof (induction n S rule: closure_loop.induct)
  case (1 n S)
  show ?case
  proof (cases "rule_pass S = S")
    case True
    then have "closure_loop n S = (n + 0, (rule_pass ^^ 0) S)"
      by (simp add: closure_loop_stop)
    then show ?thesis by blast
  next
    case False
    from 1[OF False] obtain k where
      "closure_loop (Suc n) (rule_pass S) = (Suc n + k, (rule_pass ^^ k) (rule_pass S))"
      by blast
    then have "closure_loop n S = (n + Suc k, (rule_pass ^^ Suc k) S)"
      unfolding closure_loop_step[OF False] by (simp add: funpow_swap1)
    then show ?thesis by blast
  qed
qed

lemma rule_pass_is_resolve: "rule_pass = resolve"
  by (rule ext) (rule rule_pass_eq_resolve)

section \<open>Termination of the fixed-point iteration\<close>

text \<open>
  Claim C6. For every base flag set the fixed-point iteration terminates
  (\<open>closure_loop\<close> is a total function), and the number of passes that make progress
  is at most the number of flags: the result is reached after \<open>passes_needed B\<close>
  passes of the header, \<open>passes_needed B\<close> is bounded by the size of the flag
  vocabulary, and one more pass changes nothing.
\<close>

theorem passes_needed_le_flag_count:
  "passes_needed B \<le> card (UNIV :: flag set)
   \<and> spec_resolve B = (resolve ^^ passes_needed B) B
   \<and> resolve (spec_resolve B) = spec_resolve B"
proof -
  obtain k where k: "closure_loop 0 B = (0 + k, (rule_pass ^^ k) B)"
    using closure_loop_funpow[of 0 B] by blast
  show ?thesis
    using closure_loop_bound[of 0 B] closure_loop_fixed[of 0 B] k
    by (simp add: passes_needed_def spec_resolve_def rule_pass_is_resolve)
qed

section \<open>Concrete configurations\<close>

lemma resolve_parse_ecp:
  "resolve {MBEDTLS_PK_PARSE_C, MBEDTLS_ECP_C} =
     {MBEDTLS_PK_PARSE_C, MBEDTLS_ECP_C, MBEDTLS_ECP_LIGHT,
      MBEDTLS_PK_PARSE_EC_COMPRESSED, MBEDTLS_PK_HAVE_ECC_KEYS}"
  by (auto simp: resolve_iff)

lemma resolve_parse_ecp_again:
  "resolve {MBEDTLS_PK_PARSE_C, MBEDTLS_ECP_C, MBEDTLS_ECP_LIGHT,
      MBEDTLS_PK_PARSE_EC_COMPRESSED, MBEDTLS_PK_HAVE_ECC_KEYS} =
     {MBEDTLS_PK_PARSE_C, MBEDTLS_ECP_C, MBEDTLS_ECP_LIGHT,
      MBEDTLS_PK_PARSE_EC_COMPRESSED, MBEDTLS_PK_HAVE_ECC_KEYS}"
  by (auto simp: resolve_iff)

lemma spec_resolve_parse_ecp:
  "spec_resolve {MBEDTLS_PK_PARSE_C, MBEDTLS_ECP_C} =
     {MBEDTLS_PK_PARSE_C, MBEDTLS_ECP_C, MBEDTLS_ECP_LIGHT,
      MBEDTLS_PK_PARSE_EC_COMPRESSED, MBEDTLS_PK_HAVE_ECC_KEYS}"
proof -
  let ?B = "{MBEDTLS_PK_PARSE_C, MBEDTLS_ECP_C}"
  let ?R = "{MBEDTLS_PK_PARSE_C, MBEDTLS_ECP_C, MBEDTLS_ECP_LIGHT,
      MBEDTLS_PK_PARSE_EC_COMPRESSED, MBEDTLS_PK_HAVE_ECC_KEYS}"
  have "MBEDTLS_ECP_LIGHT \<in> ?R" "MBEDTLS_ECP_LIGHT \<notin> ?B" by simp_all
  then have ne: "rule_pass ?B \<noteq> ?B"
    unfolding rule_pass_eq_resolve resolve_parse_ecp by blast
  have "closure_loop 0 ?B = closure_loop (Suc 0) ?R"
    using closure_loop_step[OF ne, of 0]
    by (simp only: rule_pass_eq_resolve resolve_parse_ecp)
  also have "\<dots> = (Suc 0, ?R)"
    by (rule closure_loop_stop) (simp only: rule_pass_eq_resolve resolve_parse_ecp_again)
  finally show ?thesis by (simp add: spec_resolve_def)
qed

text \<open>
  The configuration that enables the PSA core, RSA and the legacy ECP module, and
  nothing else. One textual pass, a second pass over its output, and a third.
\<close>

lemma resolve_psa_rsa_ecp:
  "resolve {MBEDTLS_PSA_CRYPTO_C, MBEDTLS_RSA_C, MBEDTLS_ECP_C} =
     {MBEDTLS_PSA_CRYPTO_C, MBEDTLS_RSA_C, MBEDTLS_ECP_C, MBEDTLS_MD_LIGHT,
      MBEDTLS_ECP_LIGHT, MBEDTLS_PSA_CRYPTO_CLIENT, MBEDTLS_PK_C, MBEDTLS_PK_WRITE_C,
      MBEDTLS_PK_PARSE_C, MBEDTLS_PK_HAVE_ECC_KEYS}"
  by (auto simp: resolve_iff)

lemma resolve_psa_rsa_ecp_twice:
  "resolve {MBEDTLS_PSA_CRYPTO_C, MBEDTLS_RSA_C, MBEDTLS_ECP_C, MBEDTLS_MD_LIGHT,
      MBEDTLS_ECP_LIGHT, MBEDTLS_PSA_CRYPTO_CLIENT, MBEDTLS_PK_C, MBEDTLS_PK_WRITE_C,
      MBEDTLS_PK_PARSE_C, MBEDTLS_PK_HAVE_ECC_KEYS} =
     {MBEDTLS_PSA_CRYPTO_C, MBEDTLS_RSA_C, MBEDTLS_ECP_C, MBEDTLS_MD_LIGHT,
      MBEDTLS_ECP_LIGHT, MBEDTLS_PSA_CRYPTO_CLIENT, MBEDTLS_PK_C, MBEDTLS_PK_WRITE_C,
      MBEDTLS_PK_PARSE_C, MBEDTLS_PK_HAVE_ECC_KEYS, MBEDTLS_PK_PARSE_EC_COMPRESSED}"
  by (auto simp: resolve_iff)

lemma resolve_psa_rsa_ecp_thrice:
  "resolve {MBEDTLS_PSA_CRYPTO_C, MBEDTLS_RSA_C, MBEDTLS_ECP_C, MBEDTLS_MD_LIGHT,
      MBEDTLS_ECP_LIGHT, MBEDTLS_PSA_CRYPTO_CLIENT, MBEDTLS_PK_C, MBEDTLS_PK_WRITE_C,
      MBEDTLS_PK_PARSE_C, MBEDTLS_PK_HAVE_ECC_KEYS, MBEDTLS_PK_PARSE_EC_COMPRESSED} =
     {MBEDTLS_PSA_CRYPTO_C, MBEDTLS_RSA_C, MBEDTLS_ECP_C, MBEDTLS_MD_LIGHT,
      MBEDTLS_ECP_LIGHT, MBEDTLS_PSA_CRYPTO_CLIENT, MBEDTLS_PK_C, MBEDTLS_PK_WRITE_C,
      MBEDTLS_PK_PARSE_C, MBEDTLS_PK_HAVE_ECC_KEYS, MBEDTLS_PK_PARSE_EC_COMPRESSED}"
  by (auto simp: resolve_iff)

lemma closure_loop_psa_rsa_ecp:
  "closure_loop 0 {MBEDTLS_PSA_CRYPTO_C, MBEDTLS_RSA_C, MBEDTLS_ECP_C} =
     (2, {MBEDTLS_PSA_CRYPTO_C, MBEDTLS_RSA_C, MBEDTLS_ECP_C, MBEDTLS_MD_LIGHT,
      MBEDTLS_ECP_LIGHT, MBEDTLS_PSA_CRYPTO_CLIENT, MBEDTLS_PK_C, MBEDTLS_PK_WRITE_C,
      MBEDTLS_PK_PARSE_C, MBEDTLS_PK_HAVE_ECC_KEYS, MBEDTLS_PK_PARSE_EC_COMPRESSED})"
proof -
  let ?B = "{MBEDTLS_PSA_CRYPTO_C, MBEDTLS_RSA_C, MBEDTLS_ECP_C}"
  let ?R1 = "{MBEDTLS_PSA_CRYPTO_C, MBEDTLS_RSA_C, MBEDTLS_ECP_C, MBEDTLS_MD_LIGHT,
      MBEDTLS_ECP_LIGHT, MBEDTLS_PSA_CRYPTO_CLIENT, MBEDTLS_PK_C, MBEDTLS_PK_WRITE_C,
      MBEDTLS_PK_PARSE_C, MBEDTLS_PK_HAVE_ECC_KEYS}"
  let ?R2 = "{MBEDTLS_PSA_CRYPTO_C, MBEDTLS_RSA_C, MBEDTLS_ECP_C, MBEDTLS_MD_LIGHT,
      MBEDTLS_ECP_LIGHT, MBEDTLS_PSA_CRYPTO_CLIENT, MBEDTLS_PK_C, MBEDTLS_PK_WRITE_C,
      MBEDTLS_PK_PARSE_C, MBEDTLS_PK_HAVE_ECC_KEYS, MBEDTLS_PK_PARSE_EC_COMPRESSED}"
  have "MBEDTLS_MD_LIGHT \<in> ?R1" "MBEDTLS_MD_LIGHT \<notin> ?B" by simp_all
  then have ne1: "rule_pass ?B \<noteq> ?B"
    unfolding rule_pass_eq_resolve resolve_psa_rsa_ecp by blast
  have "MBEDTLS_PK_PARSE_EC_COMPRESSED \<in> ?R2" "MBEDTLS_PK_PARSE_EC_COMPRESSED \<notin> ?R1"
    by simp_all
  then have ne2: "rule_pass ?R1 \<noteq> ?R1"
    unfolding rule_pass_eq_resolve resolve_psa_rsa_ecp_twice by blast
  have "closure_loop 0 ?B = closure_loop (Suc 0) ?R1"
    using closure_loop_step[OF ne1, of 0]
    by (simp only: rule_pass_eq_resolve resolve_psa_rsa_ecp)
  also have "\<dots> = closure_loop (Suc (Suc 0)) ?R2"
    using closure_loop_step[OF ne2, of "Suc 0"]
    by (simp only: rule_pass_eq_resolve resolve_psa_rsa_ecp_twice)
  also have "\<dots> = (Suc (Suc 0), ?R2)"
    by (rule closure_loop_stop) (simp only: rule_pass_eq_resolve resolve_psa_rsa_ecp_thrice)
  finally show ?thesis by (simp add: numeral_2_eq_2)
qed

section \<open>The textual pass against the closure\<close>

text \<open>
  The textual pass never activates a flag the closure does not contain.
\<close>

lemma closure_loop_superset: "S \<subseteq> snd (closure_loop n S)"
proof (induction n S rule: closure_loop.induct)
  case (1 n S)
  show ?case
  proof (cases "rule_pass S = S")
    case True
    then show ?thesis by (simp add: closure_loop_stop)
  next
    case False
    from 1[OF False] rule_pass_incr[of S] show ?thesis
      unfolding closure_loop_step[OF False] by blast
  qed
qed

lemma resolve_subset_spec_resolve: "resolve B \<subseteq> spec_resolve B"
proof (cases "rule_pass B = B")
  case True
  then show ?thesis
    by (simp add: spec_resolve_def closure_loop_stop rule_pass_eq_resolve[symmetric])
next
  case False
  show ?thesis
    unfolding spec_resolve_def closure_loop_step[OF False]
    using closure_loop_superset[of "rule_pass B" "Suc 0"]
    by (simp add: rule_pass_eq_resolve)
qed

text \<open>
  A second pass adds nothing, except in the configurations where the block of
  lines 132--136 defines \<^verbatim>\<open>MBEDTLS_PK_PARSE_C\<close> after the block of lines 87--89 has
  already tested it.
\<close>

lemma resolve_twice_unless_late_pk_parse:
  assumes "\<not> (MBEDTLS_PSA_CRYPTO_C \<in> B \<and> MBEDTLS_RSA_C \<in> B \<and> MBEDTLS_ECP_C \<in> B \<and>
             MBEDTLS_PK_PARSE_C \<notin> B \<and> MBEDTLS_PK_PARSE_EC_COMPRESSED \<notin> B)"
  shows "resolve (resolve B) = resolve B"
proof (rule set_eqI)
  fix f
  show "f \<in> resolve (resolve B) \<longleftrightarrow> f \<in> resolve B"
    using assms by (cases f; simp add: resolve_iff; blast)
qed

lemma resolve_eq_spec_resolve_unless_late_pk_parse:
  assumes "\<not> (MBEDTLS_PSA_CRYPTO_C \<in> B \<and> MBEDTLS_RSA_C \<in> B \<and> MBEDTLS_ECP_C \<in> B \<and>
             MBEDTLS_PK_PARSE_C \<notin> B \<and> MBEDTLS_PK_PARSE_EC_COMPRESSED \<notin> B)"
  shows "resolve B = spec_resolve B"
proof (cases "rule_pass B = B")
  case True
  then show ?thesis
    by (simp add: spec_resolve_def closure_loop_stop rule_pass_eq_resolve[symmetric])
next
  case False
  have "rule_pass (rule_pass B) = rule_pass B"
    unfolding rule_pass_eq_resolve by (rule resolve_twice_unless_late_pk_parse[OF assms])
  then have "closure_loop (Suc 0) (rule_pass B) = (Suc 0, rule_pass B)"
    by (rule closure_loop_stop)
  then show ?thesis
    unfolding spec_resolve_def closure_loop_step[OF False]
    by (simp add: rule_pass_eq_resolve)
qed







text \<open>
  Claim C1 (the output of resolve is exactly the closure of the base set under the
  rule table). The claim fails at the base set
  \<open>{MBEDTLS_PSA_CRYPTO_C, MBEDTLS_RSA_C, MBEDTLS_ECP_C}\<close>: the closure contains
  \<^verbatim>\<open>MBEDTLS_PK_PARSE_EC_COMPRESSED\<close>, implied through \<^verbatim>\<open>MBEDTLS_PK_PARSE_C\<close>, but the
  header's pass leaves it undefined although it ends with both
  \<^verbatim>\<open>MBEDTLS_PK_PARSE_C\<close> and \<^verbatim>\<open>MBEDTLS_ECP_C\<close> defined.
\<close>

theorem closure_missed_at_psa_rsa_ecp:
  "MBEDTLS_PK_PARSE_EC_COMPRESSED \<in>
     spec_resolve {MBEDTLS_PSA_CRYPTO_C, MBEDTLS_RSA_C, MBEDTLS_ECP_C}
   \<and> MBEDTLS_PK_PARSE_EC_COMPRESSED \<notin>
     resolve {MBEDTLS_PSA_CRYPTO_C, MBEDTLS_RSA_C, MBEDTLS_ECP_C}
   \<and> MBEDTLS_PK_PARSE_C \<in> resolve {MBEDTLS_PSA_CRYPTO_C, MBEDTLS_RSA_C, MBEDTLS_ECP_C}
   \<and> MBEDTLS_ECP_C \<in> resolve {MBEDTLS_PSA_CRYPTO_C, MBEDTLS_RSA_C, MBEDTLS_ECP_C}"
  unfolding spec_resolve_def closure_loop_psa_rsa_ecp resolve_psa_rsa_ecp by simp

section \<open>Idempotence\<close>

text \<open>
  Claim C5 (resolve (resolve base) = resolve base). The claim fails at the same base
  set: resolving the output of the first resolution again defines
  \<^verbatim>\<open>MBEDTLS_PK_PARSE_EC_COMPRESSED\<close>, which the first resolution left undefined.
\<close>

theorem resolve_not_idempotent_at_psa_rsa_ecp:
  "resolve (resolve {MBEDTLS_PSA_CRYPTO_C, MBEDTLS_RSA_C, MBEDTLS_ECP_C}) \<noteq>
     resolve {MBEDTLS_PSA_CRYPTO_C, MBEDTLS_RSA_C, MBEDTLS_ECP_C}
   \<and> MBEDTLS_PK_PARSE_EC_COMPRESSED \<in>
       resolve (resolve {MBEDTLS_PSA_CRYPTO_C, MBEDTLS_RSA_C, MBEDTLS_ECP_C})
   \<and> MBEDTLS_PK_PARSE_EC_COMPRESSED \<notin>
       resolve {MBEDTLS_PSA_CRYPTO_C, MBEDTLS_RSA_C, MBEDTLS_ECP_C}"
proof -
  let ?B = "{MBEDTLS_PSA_CRYPTO_C, MBEDTLS_RSA_C, MBEDTLS_ECP_C}"
  have a: "MBEDTLS_PK_PARSE_EC_COMPRESSED \<in> resolve (resolve ?B)"
    unfolding resolve_psa_rsa_ecp resolve_psa_rsa_ecp_twice by simp
  have b: "MBEDTLS_PK_PARSE_EC_COMPRESSED \<notin> resolve ?B"
    unfolding resolve_psa_rsa_ecp by simp
  from a b have "resolve (resolve ?B) \<noteq> resolve ?B" by blast
  with a b show ?thesis by blast
qed

section \<open>The conjunctive rule\<close>

text \<open>
  Claim C7. Resolving the base set that contains exactly \<^verbatim>\<open>MBEDTLS_PK_PARSE_C\<close> and
  \<^verbatim>\<open>MBEDTLS_ECP_C\<close> activates \<^verbatim>\<open>MBEDTLS_PK_PARSE_EC_COMPRESSED\<close>; the output holds the
  two base flags and the three flags they imply and nothing else, and it is the
  closure of the base set. Resolving \<^verbatim>\<open>MBEDTLS_PK_PARSE_C\<close> alone leaves
  \<^verbatim>\<open>MBEDTLS_PK_PARSE_EC_COMPRESSED\<close> inactive.
\<close>

theorem parse_and_ecp_enable_compressed:
  "MBEDTLS_PK_PARSE_EC_COMPRESSED \<in> resolve {MBEDTLS_PK_PARSE_C, MBEDTLS_ECP_C}
   \<and> resolve {MBEDTLS_PK_PARSE_C, MBEDTLS_ECP_C} =
       {MBEDTLS_PK_PARSE_C, MBEDTLS_ECP_C, MBEDTLS_ECP_LIGHT,
        MBEDTLS_PK_PARSE_EC_COMPRESSED, MBEDTLS_PK_HAVE_ECC_KEYS}
   \<and> resolve {MBEDTLS_PK_PARSE_C, MBEDTLS_ECP_C} =
       spec_resolve {MBEDTLS_PK_PARSE_C, MBEDTLS_ECP_C}
   \<and> MBEDTLS_PK_PARSE_EC_COMPRESSED \<notin> resolve {MBEDTLS_PK_PARSE_C}
   \<and> resolve {MBEDTLS_PK_PARSE_C} = {MBEDTLS_PK_PARSE_C}"
proof -
  have "resolve {MBEDTLS_PK_PARSE_C} = {MBEDTLS_PK_PARSE_C}"
    by (auto simp: resolve_iff)
  then show ?thesis
    unfolding spec_resolve_parse_ecp resolve_parse_ecp by simp
qed

section \<open>Monotonicity\<close>




section \<open>Transitive chains\<close>

text \<open>
  A rule enabled on the base set fires in the textual pass, and so does a rule
  that the consequent of such a rule enables on its own.
\<close>

lemma enabled_rule_fires_all:
  "list_all (\<lambda>r. rule_enabled r B \<longrightarrow> snd r \<in> resolve B) rule_table"
  unfolding rule_table_simp
  by (simp add: rule_enabled_def resolve_iff)

lemma enabled_rule_fires:
  assumes "r \<in> set rule_table" and "rule_enabled r B"
  shows "snd r \<in> resolve B"
  using enabled_rule_fires_all[of B] assms unfolding list_all_iff by blast

lemma chained_rule_fires_all:
  "list_all (\<lambda>r1. list_all (\<lambda>r2.
      rule_enabled r1 B \<longrightarrow> rule_enabled r2 {snd r1} \<longrightarrow> snd r2 \<in> resolve B)
     rule_table) rule_table"
  unfolding rule_table_simp
  by (simp add: rule_enabled_def resolve_iff)

lemma chained_rule_fires:
  assumes "r1 \<in> set rule_table" and "r2 \<in> set rule_table"
    and "rule_enabled r1 B" and "rule_enabled r2 {snd r1}"
  shows "snd r2 \<in> resolve B"
  using chained_rule_fires_all[of B] assms unfolding list_all_iff by blast

text \<open>
  The output of the textual pass is closed under every rule of the table but the
  one of lines 87--89: a rule that is enabled on the output has its consequent in
  the output, unless that consequent is \<^verbatim>\<open>MBEDTLS_PK_PARSE_EC_COMPRESSED\<close>.
\<close>

lemma resolve_closed_except_compressed_all:
  "list_all (\<lambda>r. rule_enabled r (resolve B) \<longrightarrow>
      snd r \<noteq> MBEDTLS_PK_PARSE_EC_COMPRESSED \<longrightarrow> snd r \<in> resolve B) rule_table"
  unfolding rule_table_simp
  by (simp add: rule_enabled_def resolve_iff)

lemma resolve_closed_except_compressed:
  assumes "r \<in> set rule_table" and "rule_enabled r (resolve B)"
    and "snd r \<noteq> MBEDTLS_PK_PARSE_EC_COMPRESSED"
  shows "snd r \<in> resolve B"
  using resolve_closed_except_compressed_all[of B] assms unfolding list_all_iff by blast

text \<open>
  Claim C2 (transitive chains resolve fully: with the trigger flags of a two-rule
  chain in the base set, all links of the chain are active in the output). The
  claim fails for the chain from lines 132--136 into lines 87--89. The rule
  \<^verbatim>\<open>MBEDTLS_PSA_CRYPTO_C && MBEDTLS_RSA_C\<close> \<open>\<Rightarrow>\<close> \<^verbatim>\<open>MBEDTLS_PK_PARSE_C\<close> is enabled on the base
  set \<open>{MBEDTLS_PSA_CRYPTO_C, MBEDTLS_RSA_C, MBEDTLS_ECP_C}\<close>, and with its consequent
  added the rule \<^verbatim>\<open>MBEDTLS_PK_PARSE_C && MBEDTLS_ECP_C\<close> \<open>\<Rightarrow>\<close>
  \<^verbatim>\<open>MBEDTLS_PK_PARSE_EC_COMPRESSED\<close> is enabled too; the output holds the first link,
  \<^verbatim>\<open>MBEDTLS_PK_PARSE_C\<close>, and not the second. The chain the claim names does resolve:
  the base set \<open>{MBEDTLS_PSA_CRYPTO_C, MBEDTLS_RSA_C}\<close> yields \<^verbatim>\<open>MBEDTLS_PK_C\<close> and
  \<^verbatim>\<open>MBEDTLS_MD_LIGHT\<close>.
\<close>

theorem chain_through_pk_parse_c_not_resolved:
  "([CAnd (Defined MBEDTLS_PSA_CRYPTO_C) (Defined MBEDTLS_RSA_C)], MBEDTLS_PK_PARSE_C)
     \<in> set rule_table
   \<and> ([CAnd (Defined MBEDTLS_PK_PARSE_C) (Defined MBEDTLS_ECP_C)],
       MBEDTLS_PK_PARSE_EC_COMPRESSED) \<in> set rule_table
   \<and> rule_enabled
       ([CAnd (Defined MBEDTLS_PSA_CRYPTO_C) (Defined MBEDTLS_RSA_C)], MBEDTLS_PK_PARSE_C)
       {MBEDTLS_PSA_CRYPTO_C, MBEDTLS_RSA_C, MBEDTLS_ECP_C}
   \<and> rule_enabled
       ([CAnd (Defined MBEDTLS_PK_PARSE_C) (Defined MBEDTLS_ECP_C)],
        MBEDTLS_PK_PARSE_EC_COMPRESSED)
       (insert MBEDTLS_PK_PARSE_C {MBEDTLS_PSA_CRYPTO_C, MBEDTLS_RSA_C, MBEDTLS_ECP_C})
   \<and> MBEDTLS_PK_PARSE_C \<in> resolve {MBEDTLS_PSA_CRYPTO_C, MBEDTLS_RSA_C, MBEDTLS_ECP_C}
   \<and> MBEDTLS_PK_PARSE_EC_COMPRESSED \<notin>
       resolve {MBEDTLS_PSA_CRYPTO_C, MBEDTLS_RSA_C, MBEDTLS_ECP_C}
   \<and> MBEDTLS_PK_C \<in> resolve {MBEDTLS_PSA_CRYPTO_C, MBEDTLS_RSA_C}
   \<and> MBEDTLS_MD_LIGHT \<in> resolve {MBEDTLS_PSA_CRYPTO_C, MBEDTLS_RSA_C}"
proof -
  have "MBEDTLS_PK_C \<in> resolve {MBEDTLS_PSA_CRYPTO_C, MBEDTLS_RSA_C}"
    "MBEDTLS_MD_LIGHT \<in> resolve {MBEDTLS_PSA_CRYPTO_C, MBEDTLS_RSA_C}"
    by (simp_all add: resolve_iff)
  then show ?thesis
    unfolding resolve_psa_rsa_ecp
    by (simp add: rule_table_simp rule_enabled_def)
qed

section \<open>Flags the header only reads\<close>

lemma defined_flags:
  "defined_by_list adjust_blocks =
     {MBEDTLS_MD_LIGHT, MBEDTLS_ECP_LIGHT, MBEDTLS_PK_PARSE_EC_COMPRESSED, MBEDTLS_CAN_ECDH,
      MBEDTLS_PK_CAN_ECDSA_SIGN, MBEDTLS_PK_CAN_ECDSA_VERIFY, MBEDTLS_PK_CAN_ECDSA_SOME,
      MBEDTLS_PSA_CRYPTO_CLIENT, MBEDTLS_PK_C, MBEDTLS_PK_WRITE_C, MBEDTLS_PK_PARSE_C,
      MBEDTLS_PK_HAVE_ECC_KEYS}"
  unfolding adjust_blocks_def block_defs by auto

lemma rules_of_list_set:
  "set (rules_of_list g ds) = (\<Union>d\<in>set ds. set (rules_of g d))"
  by (induction ds) auto

lemma consequents_of_rule_table:
  "snd ` set rule_table = defined_by_list adjust_blocks"
  unfolding defined_flags unfolding rule_table_simp by auto

lemma resolve_input: "g \<notin> defined_by_list adjust_blocks \<Longrightarrow> g \<in> resolve B \<longleftrightarrow> g \<in> B"
  unfolding resolve_def by (rule in_execs_other)

text \<open>
  Claim C9. No rule activates \<^verbatim>\<open>MBEDTLS_USE_PSA_CRYPTO\<close> or any \<^verbatim>\<open>PSA_WANT_xxx\<close> flag:
  none of them is the consequent of a rule or the target of a \<^verbatim>\<open>#define\<close>, and for
  every base set each of them is active in the output exactly when it is in the
  base set.
\<close>

theorem psa_inputs_unchanged:
  "f \<in> {MBEDTLS_USE_PSA_CRYPTO, PSA_WANT_ALG_ECDH, PSA_WANT_ALG_ECDSA,
         PSA_WANT_KEY_TYPE_ECC_KEY_PAIR_BASIC, PSA_WANT_KEY_TYPE_ECC_PUBLIC_KEY} \<Longrightarrow>
   f \<notin> snd ` set rule_table \<and> f \<notin> defined_by_list adjust_blocks
   \<and> (f \<in> resolve B \<longleftrightarrow> f \<in> B)"
proof -
  assume f: "f \<in> {MBEDTLS_USE_PSA_CRYPTO, PSA_WANT_ALG_ECDH, PSA_WANT_ALG_ECDSA,
         PSA_WANT_KEY_TYPE_ECC_KEY_PAIR_BASIC, PSA_WANT_KEY_TYPE_ECC_PUBLIC_KEY}"
  then have nd: "f \<notin> defined_by_list adjust_blocks"
    unfolding defined_flags by auto
  with resolve_input[OF nd, of B] show ?thesis
    unfolding consequents_of_rule_table by simp
qed

theorem psa_inputs_unchanged_witness:
  "MBEDTLS_USE_PSA_CRYPTO \<in> {MBEDTLS_USE_PSA_CRYPTO, PSA_WANT_ALG_ECDH, PSA_WANT_ALG_ECDSA,
         PSA_WANT_KEY_TYPE_ECC_KEY_PAIR_BASIC, PSA_WANT_KEY_TYPE_ECC_PUBLIC_KEY}
   \<and> MBEDTLS_USE_PSA_CRYPTO \<notin> snd ` set rule_table
   \<and> MBEDTLS_USE_PSA_CRYPTO \<notin> defined_by_list adjust_blocks
   \<and> MBEDTLS_USE_PSA_CRYPTO \<in> resolve {MBEDTLS_USE_PSA_CRYPTO, PSA_WANT_ALG_ECDH}
   \<and> MBEDTLS_USE_PSA_CRYPTO \<notin> resolve {PSA_WANT_ALG_ECDH, MBEDTLS_ECDH_C}"
proof -
  have m: "MBEDTLS_USE_PSA_CRYPTO \<in> {MBEDTLS_USE_PSA_CRYPTO, PSA_WANT_ALG_ECDH,
      PSA_WANT_ALG_ECDSA, PSA_WANT_KEY_TYPE_ECC_KEY_PAIR_BASIC,
      PSA_WANT_KEY_TYPE_ECC_PUBLIC_KEY}" by simp
  from psa_inputs_unchanged[OF m, of "{MBEDTLS_USE_PSA_CRYPTO, PSA_WANT_ALG_ECDH}"]
    psa_inputs_unchanged[OF m, of "{PSA_WANT_ALG_ECDH, MBEDTLS_ECDH_C}"]
  show ?thesis by simp
qed

section \<open>The ECDSA capabilities of PK\<close>

text \<open>
  Claim C10 as stated (for every base set in which \<^verbatim>\<open>MBEDTLS_USE_PSA_CRYPTO\<close> is
  inactive, \<^verbatim>\<open>MBEDTLS_PK_CAN_ECDSA_SIGN\<close> and \<^verbatim>\<open>MBEDTLS_PK_CAN_ECDSA_VERIFY\<close> have equal
  final states, both active exactly when \<^verbatim>\<open>MBEDTLS_ECDSA_C\<close> is active) fails at the
  base set that names \<^verbatim>\<open>MBEDTLS_PK_CAN_ECDSA_SIGN\<close> alone: the header never undefines a
  macro, so sign stays active while verify and \<^verbatim>\<open>MBEDTLS_ECDSA_C\<close> are inactive.
\<close>

theorem ecdsa_sign_verify_differ_without_use_psa:
  "MBEDTLS_USE_PSA_CRYPTO \<notin> {MBEDTLS_PK_CAN_ECDSA_SIGN}
   \<and> MBEDTLS_ECDSA_C \<notin> resolve {MBEDTLS_PK_CAN_ECDSA_SIGN}
   \<and> MBEDTLS_PK_CAN_ECDSA_SIGN \<in> resolve {MBEDTLS_PK_CAN_ECDSA_SIGN}
   \<and> MBEDTLS_PK_CAN_ECDSA_VERIFY \<notin> resolve {MBEDTLS_PK_CAN_ECDSA_SIGN}"
  by (simp add: resolve_iff)

text \<open>
  Claim C10, amended. For every base set that names neither
  \<^verbatim>\<open>MBEDTLS_PK_CAN_ECDSA_SIGN\<close> nor \<^verbatim>\<open>MBEDTLS_PK_CAN_ECDSA_VERIFY\<close> itself: when
  \<^verbatim>\<open>MBEDTLS_USE_PSA_CRYPTO\<close> is inactive the two flags have equal final states, both
  active exactly when \<^verbatim>\<open>MBEDTLS_ECDSA_C\<close> is active; when \<^verbatim>\<open>MBEDTLS_USE_PSA_CRYPTO\<close> is
  active, sign is active exactly when \<^verbatim>\<open>PSA_WANT_ALG_ECDSA\<close> and
  \<^verbatim>\<open>PSA_WANT_KEY_TYPE_ECC_KEY_PAIR_BASIC\<close> are, and verify exactly when
  \<^verbatim>\<open>PSA_WANT_ALG_ECDSA\<close> and \<^verbatim>\<open>PSA_WANT_KEY_TYPE_ECC_PUBLIC_KEY\<close> are.
\<close>

theorem ecdsa_sign_verify_states:
  "MBEDTLS_PK_CAN_ECDSA_SIGN \<notin> B \<Longrightarrow> MBEDTLS_PK_CAN_ECDSA_VERIFY \<notin> B \<Longrightarrow>
   (MBEDTLS_PK_CAN_ECDSA_SIGN \<in> resolve B \<longleftrightarrow>
      (if MBEDTLS_USE_PSA_CRYPTO \<in> B
       then PSA_WANT_ALG_ECDSA \<in> B \<and> PSA_WANT_KEY_TYPE_ECC_KEY_PAIR_BASIC \<in> B
       else MBEDTLS_ECDSA_C \<in> B))
   \<and> (MBEDTLS_PK_CAN_ECDSA_VERIFY \<in> resolve B \<longleftrightarrow>
      (if MBEDTLS_USE_PSA_CRYPTO \<in> B
       then PSA_WANT_ALG_ECDSA \<in> B \<and> PSA_WANT_KEY_TYPE_ECC_PUBLIC_KEY \<in> B
       else MBEDTLS_ECDSA_C \<in> B))"
  by (simp add: resolve_iff)

theorem ecdsa_sign_verify_states_witness:
  "MBEDTLS_PK_CAN_ECDSA_SIGN \<notin> {MBEDTLS_ECDSA_C}
   \<and> MBEDTLS_PK_CAN_ECDSA_VERIFY \<notin> {MBEDTLS_ECDSA_C}
   \<and> MBEDTLS_PK_CAN_ECDSA_SIGN \<in> resolve {MBEDTLS_ECDSA_C}
   \<and> MBEDTLS_PK_CAN_ECDSA_VERIFY \<in> resolve {MBEDTLS_ECDSA_C}"
proof -
  have s: "MBEDTLS_PK_CAN_ECDSA_SIGN \<notin> {MBEDTLS_ECDSA_C}" by simp
  have v: "MBEDTLS_PK_CAN_ECDSA_VERIFY \<notin> {MBEDTLS_ECDSA_C}" by simp
  from ecdsa_sign_verify_states[OF s v] s v show ?thesis by simp
qed

section \<open>Evaluation order\<close>

subsection \<open>One pass in another order\<close>

lemma pass_inv_base: "pass_inv B B"
  using resolve_incr[of B] by (auto simp: pass_inv_def)

lemma pass_inv_input:
  assumes "pass_inv B S" and "g \<notin> defined_by_list adjust_blocks"
  shows "g \<in> S \<longleftrightarrow> g \<in> B"
proof
  assume "g \<in> S"
  moreover from assms(2) have "g \<noteq> MBEDTLS_PK_PARSE_EC_COMPRESSED" "g \<noteq> MBEDTLS_PK_CAN_ECDSA_SOME"
    unfolding defined_flags by auto
  ultimately have "g \<in> resolve B" using assms(1) by (auto simp: pass_inv_def)
  then show "g \<in> B" using resolve_input[OF assms(2)] by simp
next
  assume "g \<in> B" then show "g \<in> S" using assms(1) by (auto simp: pass_inv_def)
qed

lemma pass_inv_pk_c:
  assumes "pass_inv B S" and "MBEDTLS_PK_C \<in> S"
  shows "MBEDTLS_PK_C \<in> B \<or> MBEDTLS_RSA_C \<in> B"
proof -
  from assms have "MBEDTLS_PK_C \<in> resolve B" by (auto simp: pass_inv_def)
  then show ?thesis by (auto simp: resolve_iff)
qed

lemma pass_inv_compressed:
  assumes "pass_inv B S" and "MBEDTLS_PK_PARSE_EC_COMPRESSED \<in> S"
  shows "MBEDTLS_PK_PARSE_EC_COMPRESSED \<in> B \<or> MBEDTLS_ECP_C \<in> B"
  using assms by (auto simp: pass_inv_def)

lemma block_sound:
  assumes inv: "pass_inv B S" and d: "d \<in> set adjust_blocks" and x: "x \<in> exec d S"
  shows "x \<in> S \<or>
           (x \<noteq> MBEDTLS_PK_PARSE_EC_COMPRESSED \<and> x \<noteq> MBEDTLS_PK_CAN_ECDSA_SOME \<longrightarrow> x \<in> resolve B) \<and>
           (x = MBEDTLS_PK_PARSE_EC_COMPRESSED \<longrightarrow>
              MBEDTLS_PK_PARSE_EC_COMPRESSED \<in> B \<or> MBEDTLS_ECP_C \<in> B)"
    (is "x \<in> S \<or> ?good x")
proof -
  note rd = pass_inv_input[OF inv] defined_flags
  from x exec_frame[of d S] have new: "x \<in> S \<or> (x \<in> defined_by d \<and> x \<in> exec d S)"
    by auto
  from d consider
      "d = md_light_from_md_c" | "d = md_light_compat" | "d = ecp_light"
    | "d = pk_parse_ec_compressed" | "d = can_ecdh" | "d = pk_can_ecdsa"
    | "d = pk_can_ecdsa_some" | "d = psa_crypto_client" | "d = pk_for_psa_rsa"
    | "d = pk_have_ecc_keys"
    unfolding adjust_blocks_def by auto
  then show ?thesis
  proof cases
    case 1
    have "\<forall>x\<in>defined_by d. x \<in> exec d S \<longrightarrow> x \<in> S \<or> ?good x"
      unfolding 1 md_light_from_md_c_def by (simp add: rd resolve_iff)
    with new show ?thesis by blast
  next
    case 2
    have "\<forall>x\<in>defined_by d. x \<in> exec d S \<longrightarrow> x \<in> S \<or> ?good x"
      using pass_inv_pk_c[OF inv] unfolding 2 md_light_compat_def
      by (simp add: rd resolve_iff) blast
    with new show ?thesis by blast
  next
    case 3
    have "\<forall>x\<in>defined_by d. x \<in> exec d S \<longrightarrow> x \<in> S \<or> ?good x"
      using pass_inv_compressed[OF inv] unfolding 3 ecp_light_def
      by (simp add: rd resolve_iff) blast
    with new show ?thesis by blast
  next
    case 4
    have "\<forall>x\<in>defined_by d. x \<in> exec d S \<longrightarrow> x \<in> S \<or> ?good x"
      unfolding 4 pk_parse_ec_compressed_def by (simp add: rd resolve_iff)
    with new show ?thesis by blast
  next
    case 5
    have "\<forall>x\<in>defined_by d. x \<in> exec d S \<longrightarrow> x \<in> S \<or> ?good x"
      unfolding 5 can_ecdh_def by (simp add: rd resolve_iff)
    with new show ?thesis by blast
  next
    case 6
    have "\<forall>x\<in>defined_by d. x \<in> exec d S \<longrightarrow> x \<in> S \<or> ?good x"
      unfolding 6 pk_can_ecdsa_def by (simp add: rd resolve_iff)
    with new show ?thesis by blast
  next
    case 7
    have "\<forall>x\<in>defined_by d. x \<in> exec d S \<longrightarrow> x \<in> S \<or> ?good x"
      unfolding 7 pk_can_ecdsa_some_def by (simp add: rd resolve_iff)
    with new show ?thesis by blast
  next
    case 8
    have "\<forall>x\<in>defined_by d. x \<in> exec d S \<longrightarrow> x \<in> S \<or> ?good x"
      unfolding 8 psa_crypto_client_def by (simp add: rd resolve_iff)
    with new show ?thesis by blast
  next
    case 9
    have "\<forall>x\<in>defined_by d. x \<in> exec d S \<longrightarrow> x \<in> S \<or> ?good x"
      unfolding 9 pk_for_psa_rsa_def by (simp add: rd resolve_iff)
    with new show ?thesis by blast
  next
    case 10
    have "\<forall>x\<in>defined_by d. x \<in> exec d S \<longrightarrow> x \<in> S \<or> ?good x"
      unfolding 10 pk_have_ecc_keys_def by (simp add: rd resolve_iff)
    with new show ?thesis by blast
  qed
qed


lemma pass_inv_exec:
  assumes inv: "pass_inv B S" and d: "d \<in> set adjust_blocks"
  shows "pass_inv B (exec d S)"
proof -
  have sub: "B \<subseteq> exec d S"
    using inv exec_incr[of S d] by (auto simp: pass_inv_def)
  have old: "x \<in> S \<Longrightarrow>
      (x \<noteq> MBEDTLS_PK_PARSE_EC_COMPRESSED \<and> x \<noteq> MBEDTLS_PK_CAN_ECDSA_SOME \<longrightarrow> x \<in> resolve B) \<and>
      (x = MBEDTLS_PK_PARSE_EC_COMPRESSED \<longrightarrow>
         MBEDTLS_PK_PARSE_EC_COMPRESSED \<in> B \<or> MBEDTLS_ECP_C \<in> B)" for x
    using inv by (auto simp: pass_inv_def)
  have all: "x \<in> exec d S \<Longrightarrow>
      (x \<noteq> MBEDTLS_PK_PARSE_EC_COMPRESSED \<and> x \<noteq> MBEDTLS_PK_CAN_ECDSA_SOME \<longrightarrow> x \<in> resolve B) \<and>
      (x = MBEDTLS_PK_PARSE_EC_COMPRESSED \<longrightarrow>
         MBEDTLS_PK_PARSE_EC_COMPRESSED \<in> B \<or> MBEDTLS_ECP_C \<in> B)" for x
    using block_sound[OF inv d, of x] old[of x] by blast
  show ?thesis
    unfolding pass_inv_def using sub all by blast
qed

lemma pass_inv_execs:
  "pass_inv B S \<Longrightarrow> set ds \<subseteq> set adjust_blocks \<Longrightarrow> pass_inv B (execs ds S)"
  by (induction ds arbitrary: S) (simp_all add: pass_inv_exec)

text \<open>
  Every block of a list is run from some state that satisfies the invariant, and
  what it defines there survives to the end.
\<close>

lemma block_ran:
  "d \<in> set ds \<Longrightarrow> set ds \<subseteq> set adjust_blocks \<Longrightarrow> pass_inv B S \<Longrightarrow>
   \<exists>S'. pass_inv B S' \<and> exec d S' \<subseteq> execs ds S"
proof (induction ds arbitrary: S)
  case Nil
  then show ?case by simp
next
  case (Cons e ds)
  show ?case
  proof (cases "d = e")
    case True
    have "exec d S \<subseteq> execs ds (exec d S)" by (rule execs_incr)
    with True Cons.prems(3) show ?thesis by auto
  next
    case False
    with Cons.prems have "d \<in> set ds" "set ds \<subseteq> set adjust_blocks" "e \<in> set adjust_blocks"
      by auto
    from Cons.IH[OF this(1,2) pass_inv_exec[OF Cons.prems(3) this(3)]]
    show ?thesis by simp
  qed
qed

text \<open>
  A rule that is enabled on the base set fires when its block is run, whatever ran
  before it.
\<close>

lemma block_complete:
  assumes inv: "pass_inv B S" and d: "d \<in> set adjust_blocks"
    and r: "r \<in> set (rules_of [] d)" and en: "rule_enabled r B"
    and t: "snd r \<noteq> MBEDTLS_PK_PARSE_EC_COMPRESSED" "snd r \<noteq> MBEDTLS_PK_CAN_ECDSA_SOME"
  shows "snd r \<in> exec d S"
proof -
  note rd = pass_inv_input[OF inv] defined_flags
  have up: "g \<in> B \<Longrightarrow> g \<in> S" for g using inv by (auto simp: pass_inv_def)
  from d consider
      "d = md_light_from_md_c" | "d = md_light_compat" | "d = ecp_light"
    | "d = pk_parse_ec_compressed" | "d = can_ecdh" | "d = pk_can_ecdsa"
    | "d = pk_can_ecdsa_some" | "d = psa_crypto_client" | "d = pk_for_psa_rsa"
    | "d = pk_have_ecc_keys"
    unfolding adjust_blocks_def by auto
  then show ?thesis
  proof cases
    case 1
    with r en t show ?thesis
      by (auto simp: md_light_from_md_c_def rule_enabled_def rd)
  next
    case 2
    with r en t up[of MBEDTLS_PK_C] show ?thesis
      by (auto simp: md_light_compat_def rule_enabled_def rd)
  next
    case 3
    with r en t up[of MBEDTLS_PK_PARSE_EC_COMPRESSED] show ?thesis
      by (auto simp: ecp_light_def rule_enabled_def rd)
  next
    case 4
    with r en t show ?thesis
      by (auto simp: pk_parse_ec_compressed_def rule_enabled_def rd)
  next
    case 5
    with r en t show ?thesis
      by (auto simp: can_ecdh_def rule_enabled_def rd)
  next
    case 6
    with r en t show ?thesis
      by (auto simp: pk_can_ecdsa_def rule_enabled_def rd)
  next
    case 7
    with r en t show ?thesis
      by (auto simp: pk_can_ecdsa_some_def rule_enabled_def rd)
  next
    case 8
    with r en t show ?thesis
      by (auto simp: psa_crypto_client_def rule_enabled_def rd)
  next
    case 9
    with r en t show ?thesis
      by (auto simp: pk_for_psa_rsa_def rule_enabled_def rd)
  next
    case 10
    with r en t show ?thesis
      by (auto simp: pk_have_ecc_keys_def rule_enabled_def rd)
  qed
qed

lemma resolve_by_rule:
  assumes "f \<in> resolve B" and "f \<noteq> MBEDTLS_PK_CAN_ECDSA_SOME"
  shows "f \<in> B \<or> (\<exists>r\<in>set rule_table. snd r = f \<and> rule_enabled r B)"
  using assms unfolding rule_table_simp
  by (cases f; simp add: resolve_iff rule_enabled_def split: if_splits)

text \<open>
  One pass over the blocks in any order agrees with the textual pass on every flag
  other than \<^verbatim>\<open>MBEDTLS_PK_PARSE_EC_COMPRESSED\<close> and \<^verbatim>\<open>MBEDTLS_PK_CAN_ECDSA_SOME\<close>.
\<close>

lemma execs_permuted_agrees:
  assumes "set ds = set adjust_blocks"
  shows "execs ds B - {MBEDTLS_PK_PARSE_EC_COMPRESSED, MBEDTLS_PK_CAN_ECDSA_SOME} =
         resolve B - {MBEDTLS_PK_PARSE_EC_COMPRESSED, MBEDTLS_PK_CAN_ECDSA_SOME}"
proof -
  note sets = assms
  have inv: "pass_inv B (execs ds B)"
    by (rule pass_inv_execs[OF pass_inv_base]) (simp add: sets)
  have "f \<in> execs ds B" if f: "f \<in> resolve B"
    and t: "f \<noteq> MBEDTLS_PK_PARSE_EC_COMPRESSED" "f \<noteq> MBEDTLS_PK_CAN_ECDSA_SOME" for f
  proof -
    from resolve_by_rule[OF f t(2)] show ?thesis
    proof
      assume "f \<in> B"
      then show ?thesis using execs_incr[of B ds] by auto
    next
      assume "\<exists>r\<in>set rule_table. snd r = f \<and> rule_enabled r B"
      then obtain r where r: "r \<in> set rule_table" "snd r = f" "rule_enabled r B" by blast
      from r(1) obtain d where d: "d \<in> set adjust_blocks" "r \<in> set (rules_of [] d)"
        unfolding rule_table_def rules_of_list_set by blast
      from d(1) sets have "d \<in> set ds" by simp
      from block_ran[OF this _ pass_inv_base, of B] sets
      obtain S' where S': "pass_inv B S'" "exec d S' \<subseteq> execs ds B" by auto
      from block_complete[OF S'(1) d r(3)] t r(2) have "f \<in> exec d S'" by simp
      with S'(2) show ?thesis by auto
    qed
  qed
  moreover have "f \<in> resolve B" if "f \<in> execs ds B"
    and "f \<noteq> MBEDTLS_PK_PARSE_EC_COMPRESSED" "f \<noteq> MBEDTLS_PK_CAN_ECDSA_SOME" for f
    using inv that by (auto simp: pass_inv_def)
  ultimately show ?thesis by blast
qed

text \<open>
  One pass alone does depend on the order for the two flags left out above: with
  the block of lines 118--120 evaluated before the block of lines 102--116, one
  pass from \<open>{MBEDTLS_ECDSA_C}\<close> does not define \<^verbatim>\<open>MBEDTLS_PK_CAN_ECDSA_SOME\<close>.
\<close>

lemma one_pass_in_other_order_lacks_some:
  "MBEDTLS_PK_CAN_ECDSA_SOME \<in> resolve {MBEDTLS_ECDSA_C}
   \<and> MBEDTLS_PK_CAN_ECDSA_SOME \<notin> execs 
     [md_light_from_md_c, md_light_compat, ecp_light, pk_parse_ec_compressed, can_ecdh,
      pk_can_ecdsa_some, pk_can_ecdsa, psa_crypto_client, pk_for_psa_rsa, pk_have_ecc_keys] {MBEDTLS_ECDSA_C}"
proof -
  have "MBEDTLS_PK_CAN_ECDSA_SOME \<in> resolve {MBEDTLS_ECDSA_C}"
    by (simp add: resolve_iff)
  moreover have "MBEDTLS_PK_CAN_ECDSA_SOME \<notin> execs 
     [md_light_from_md_c, md_light_compat, ecp_light, pk_parse_ec_compressed, can_ecdh,
      pk_can_ecdsa_some, pk_can_ecdsa, psa_crypto_client, pk_for_psa_rsa, pk_have_ecc_keys] {MBEDTLS_ECDSA_C}"
    unfolding block_defs by (simp add: mem_simps del: exec.simps execs.simps)
  ultimately show ?thesis by blast
qed

subsection \<open>Iterating a pass in another order\<close>
























section \<open>Macro names outside the vocabulary\<close>

lemma inj_macro_name: "inj macro_name"
proof (rule injI)
  fix x y
  assume "macro_name x = macro_name y"
  then show "x = y" by (cases x; cases y; simp)
qed

lemma guard_not_flag: "macro_name f \<noteq> include_guard"
  by (cases f; simp add: include_guard_def)

lemma holds_map_cond: "holds (map_cond f c) N = holds c (f -` N)"
  by (induction c) simp_all

lemma exec_rename:
  assumes "inj f"
  shows "f -` N = S \<Longrightarrow> exec (map_directive f d) N = N \<union> f ` exec d S"
    and "f -` N = S \<Longrightarrow> execs (map (map_directive f) ds) N = N \<union> f ` execs ds S"
proof (induction d S and ds S arbitrary: N and N rule: exec_execs.induct)
  case (1 x S)
  then show ?case by auto
next
  case (2 c ts es S)
  then show ?case by (simp add: holds_map_cond)
next
  case (3 S)
  then show ?case by auto
next
  case (4 d ds S)
  let ?N' = "N \<union> f ` exec d S"
  have step: "exec (map_directive f d) N = ?N'" by (rule 4(1)[OF 4(3)])
  have "f -` ?N' = S \<union> exec d S"
    using 4(3) assms by (auto simp: inj_def)
  then have pre: "f -` ?N' = exec d S" using exec_incr[of S d] by auto
  have "execs (map (map_directive f) ds) ?N' = ?N' \<union> f ` execs ds (exec d S)"
    by (rule 4(2)[OF pre])
  moreover have "f ` exec d S \<subseteq> f ` execs ds (exec d S)"
    using execs_incr[of "exec d S" ds] by auto
  ultimately show ?case using step by auto
qed

text \<open>
  Claim C8 as stated (a base set that names a flag outside the known vocabulary
  makes resolution report a configuration error rather than silently ignore the
  name) fails: the file has no error directive and no check on names. With the
  unknown name \<^verbatim>\<open>MBEDTLS_NO_SUCH_OPTION\<close> in the base set, processing ends normally
  with the macro set of the same base without it, plus the name.
\<close>

theorem unknown_name_is_passed_through:
  "''MBEDTLS_NO_SUCH_OPTION'' \<notin> range macro_name
   \<and> include_header {''MBEDTLS_NO_SUCH_OPTION'', ''MBEDTLS_MD_C''} =
       {''MBEDTLS_NO_SUCH_OPTION'', ''MBEDTLS_MD_C'',
        ''MBEDTLS_CONFIG_ADJUST_LEGACY_CRYPTO_H'', ''MBEDTLS_MD_LIGHT''}
   \<and> include_header {''MBEDTLS_NO_SUCH_OPTION'', ''MBEDTLS_MD_C''} =
       insert ''MBEDTLS_NO_SUCH_OPTION'' (include_header {''MBEDTLS_MD_C''})"
proof -
  have u: "''MBEDTLS_NO_SUCH_OPTION'' \<notin> range macro_name"
  proof
    assume "''MBEDTLS_NO_SUCH_OPTION'' \<in> range macro_name"
    then obtain f where "macro_name f = ''MBEDTLS_NO_SUCH_OPTION''" by auto
    then show False by (cases f; simp)
  qed
  have a: "include_header {''MBEDTLS_NO_SUCH_OPTION'', ''MBEDTLS_MD_C''} =
       {''MBEDTLS_NO_SUCH_OPTION'', ''MBEDTLS_MD_C'',
        ''MBEDTLS_CONFIG_ADJUST_LEGACY_CRYPTO_H'', ''MBEDTLS_MD_LIGHT''}"
    unfolding include_header_def header_file_def adjust_blocks_def block_defs
      include_guard_def
    by (simp add: insert_commute)
  have b: "include_header {''MBEDTLS_MD_C''} =
       {''MBEDTLS_MD_C'', ''MBEDTLS_CONFIG_ADJUST_LEGACY_CRYPTO_H'', ''MBEDTLS_MD_LIGHT''}"
    unfolding include_header_def header_file_def adjust_blocks_def block_defs
      include_guard_def
    by (simp add: insert_commute)
  from u a b show ?thesis by simp
qed

text \<open>
  Claim C8, amended. Resolution never reports an error, whatever names the base set
  holds. Processing the file from a set \<open>N\<close> of macro names changes nothing when the
  include guard is already defined; otherwise it yields the include guard, every
  name of \<open>N\<close> unchanged, known or not, and the names of the flags that \<open>resolve\<close>
  derives from the known flags of \<open>N\<close>. Names outside the vocabulary are ignored.
\<close>

theorem include_header_ignores_unknown_names:
  "include_header N =
     (if include_guard \<in> N then N
      else insert include_guard N \<union> macro_name ` resolve {f. macro_name f \<in> N})"
proof -
  have pre: "macro_name -` insert include_guard N = {f. macro_name f \<in> N}"
    using guard_not_flag by (auto simp: vimage_def)
  show ?thesis
    unfolding include_header_def header_file_def resolve_def
    using exec_rename(2)[OF inj_macro_name pre, of adjust_blocks]
    by simp
qed

theorem include_header_ignores_unknown_names_witness:
  "include_guard \<notin> {''MBEDTLS_NO_SUCH_OPTION'', ''MBEDTLS_MD_C''}
   \<and> include_header {''MBEDTLS_NO_SUCH_OPTION'', ''MBEDTLS_MD_C''} =
       insert include_guard {''MBEDTLS_NO_SUCH_OPTION'', ''MBEDTLS_MD_C''}
       \<union> macro_name `
           resolve {f. macro_name f \<in> {''MBEDTLS_NO_SUCH_OPTION'', ''MBEDTLS_MD_C''}}"
proof -
  have g: "include_guard \<notin> {''MBEDTLS_NO_SUCH_OPTION'', ''MBEDTLS_MD_C''}"
    by (simp add: include_guard_def)
  from include_header_ignores_unknown_names[of "{''MBEDTLS_NO_SUCH_OPTION'', ''MBEDTLS_MD_C''}"] g
  show ?thesis by simp
qed

end
